theory Spec2Isabelle
  imports Main "HOL-Library.Sublist"
begin

section \<open>Strings of the host language\<close>

text \<open>
  A string is a list of code units; the model covers the code units below 256
  (the Latin-1 range), which is where \<open>char\<close> lives. The functions of this section are
  the built-ins of the host language that the repository calls: \<open>toLowerCase\<close>,
  \<open>includes\<close>, \<open>trim\<close>, \<open>join\<close> and \<open>new Set\<close>.
\<close>

definition lowerChar :: "char \<Rightarrow> char" where
  "lowerChar c =
     (let n = (of_char c :: nat)
      in if (65 \<le> n \<and> n \<le> 90) \<or> (192 \<le> n \<and> n \<le> 222 \<and> n \<noteq> 215)
         then char_of (n + 32) else c)"

definition toLowerCase :: "string \<Rightarrow> string" where
  "toLowerCase s = map lowerChar s"

fun startsWith :: "string \<Rightarrow> string \<Rightarrow> bool" where
  "startsWith s [] = True"
| "startsWith [] (d # f) = False"
| "startsWith (c # s) (d # f) = (c = d \<and> startsWith s f)"

text \<open>\<open>s.includes(f)\<close>: \<open>f\<close> occurs in \<open>s\<close> as a contiguous run.\<close>

fun includesStr :: "string \<Rightarrow> string \<Rightarrow> bool" where
  "includesStr [] f = (f = [])"
| "includesStr (c # s) f = (startsWith (c # s) f \<or> includesStr s f)"

definition isWhiteSpace :: "char \<Rightarrow> bool" where
  "isWhiteSpace c = ((of_char c :: nat) \<in> {9, 10, 11, 12, 13, 32, 160})"

definition trim :: "string \<Rightarrow> string" where
  "trim s = rev (dropWhile isWhiteSpace (rev (dropWhile isWhiteSpace s)))"

text \<open>\<open>xs.join(sep)\<close>.\<close>

fun join :: "string \<Rightarrow> string list \<Rightarrow> string" where
  "join sep [] = []"
| "join sep [x] = x"
| "join sep (x # y # ys) = x @ sep @ join sep (y # ys)"

text \<open>
  \<open>new Set(xs)\<close>, read back with the spread operator: the elements in insertion
  order, each kept at its first occurrence.
\<close>

definition setAdd :: "'a \<Rightarrow> 'a list \<Rightarrow> 'a list" where
  "setAdd x acc = (if x \<in> set acc then acc else acc @ [x])"

definition newSet :: "'a list \<Rightarrow> 'a list" where
  "newSet xs = fold setAdd xs []"

definition has :: "'a list \<Rightarrow> 'a \<Rightarrow> bool" where
  "has s x = (x \<in> set s)"

definition nl :: string where
  "nl = [CHR 0x0A]"

section \<open>Paths\<close>

text \<open>
  \<open>path.relative\<close> is the platform's path library (POSIX flavour), not code of the
  repository. It is modelled on path segments: both paths are resolved against the
  working directory and normalised (empty segments and \<open>.\<close> dropped, \<open>..\<close> pops a
  segment and stays at the root), the common leading segments are removed, and
  the result climbs out of what is left of \<open>from\<close> and descends into what is left
  of \<open>to\<close>.
\<close>

fun splitOn :: "char \<Rightarrow> string \<Rightarrow> string list" where
  "splitOn d [] = [[]]"
| "splitOn d (c # cs) =
     (if c = d then [] # splitOn d cs
      else (case splitOn d cs of [] \<Rightarrow> [[c]] | w # ws \<Rightarrow> (c # w) # ws))"

fun normalizeSegs :: "string list \<Rightarrow> string list \<Rightarrow> string list" where
  "normalizeSegs acc [] = rev acc"
| "normalizeSegs acc (s # ss) =
     (if s = [] \<or> s = ''.'' then normalizeSegs acc ss
      else if s = ''..'' then normalizeSegs (tl acc) ss
      else normalizeSegs (s # acc) ss)"

definition resolveSegs :: "string \<Rightarrow> string \<Rightarrow> string list" where
  "resolveSegs cwd p =
     normalizeSegs [] (splitOn CHR ''/'' (if startsWith p ''/'' then p else cwd @ ''/'' @ p))"

fun relativeSegs :: "string list \<Rightarrow> string list \<Rightarrow> string list" where
  "relativeSegs (f # fs) (t # ts) =
     (if f = t then relativeSegs fs ts
      else replicate (length (f # fs)) ''..'' @ (t # ts))"
| "relativeSegs fs ts = replicate (length fs) ''..'' @ ts"

definition relative :: "string \<Rightarrow> string \<Rightarrow> string \<Rightarrow> string" where
  "relative cwd fromPath toPath = join ''/'' (relativeSegs (resolveSegs cwd fromPath) (resolveSegs cwd toPath))"

section \<open>Rule concatenation (src/core/RuleProcessor.ts)\<close>

record RuleFile =
  path :: string
  content :: string

text \<open>
  \<open>concatenateRules(files, baseDir)\<close>. The working directory of the process, which
  the source reads when \<open>baseDir\<close> is undefined or empty, is the first argument.
\<close>

definition section_of :: "string \<Rightarrow> string \<Rightarrow> RuleFile \<Rightarrow> string" where
  "section_of cwd base f =
     (let rel = relative cwd base (path f)
      in join nl [''---'', ''Source: '' @ rel, ''---'', trim (content f), ''''])"

definition concatenateRules :: "string \<Rightarrow> RuleFile list \<Rightarrow> string option \<Rightarrow> string" where
  "concatenateRules cwd files baseDir =
     (let base = (case baseDir of None \<Rightarrow> cwd | Some b \<Rightarrow> if b = [] then cwd else b);
          sections = map (section_of cwd base) files
      in join nl sections)"

section \<open>Agent selection (resolveSelectedAgents)\<close>

text \<open>
  Of an agent the selector reads \<open>getIdentifier()\<close> and \<open>getName()\<close> only. A
  per-agent settings record has an optional \<open>enabled\<close> flag and an optional
  \<open>outputPath\<close>. \<open>agentConfigs\<close> is a record keyed by identifier, a partial map.
\<close>

record IAgent =
  getIdentifier :: string
  getName :: string

record IAgentConfig =
  enabled :: "bool option"
  outputPath :: "string option"

record LoadedConfig =
  cliAgents :: "string list option"
  defaultAgents :: "string list option"
  agentConfigs :: "string \<rightharpoonup> IAgentConfig"

datatype Error = Error string

definition ERROR_PREFIX :: string where
  "ERROR_PREFIX = ''[ruler]''"

text \<open>\<open>createRulerError(message, context)\<close>; an undefined or empty context is falsy.\<close>

definition createRulerError :: "string \<Rightarrow> string option \<Rightarrow> Error" where
  "createRulerError msg context =
     (let fullMessage =
            (case context of
               None \<Rightarrow> ERROR_PREFIX @ '' '' @ msg
             | Some c \<Rightarrow>
                 if c \<noteq> [] then ERROR_PREFIX @ '' '' @ msg @ '' (Context: '' @ c @ '')''
                 else ERROR_PREFIX @ '' '' @ msg)
      in Error fullMessage)"

text \<open>
  An optional list read as the source tests it: \<open>xs && xs.length > 0\<close> holds exactly
  when \<open>present xs\<close> is not empty, and then \<open>present xs\<close> is the list.
\<close>

definition present :: "'a list option \<Rightarrow> 'a list" where
  "present xs = (case xs of None \<Rightarrow> [] | Some l \<Rightarrow> l)"

text \<open>\<open>config.agentConfigs[identifier]?.enabled\<close>; \<open>None\<close> is undefined.\<close>

definition enabledOf :: "LoadedConfig \<Rightarrow> string \<Rightarrow> bool option" where
  "enabledOf config identifier =
     (case agentConfigs config identifier of None \<Rightarrow> None | Some c \<Rightarrow> enabled c)"

text \<open>The throw of the source is the \<open>Inl\<close> result.\<close>

definition resolveSelectedAgents :: "LoadedConfig \<Rightarrow> IAgent list \<Rightarrow> Error + IAgent list" where
  "resolveSelectedAgents config allAgents =
     (if present (cliAgents config) \<noteq> [] then
        (let filters = map toLowerCase (present (cliAgents config));
             validAgentIdentifiers = newSet (map getIdentifier allAgents);
             validAgentNames = newSet (map (\<lambda>agent. toLowerCase (getName agent)) allAgents);
             invalidAgents =
               filter (\<lambda>f. \<not> has validAgentIdentifiers f \<and>
                            \<not> list_ex (\<lambda>name. includesStr name f) validAgentNames) filters
         in if length invalidAgents > 0 then
              Inl (createRulerError
                     (''Invalid agent specified: '' @ join '', '' invalidAgents)
                     (Some (''Valid agents are: '' @ join '', '' validAgentIdentifiers)))
            else
              Inr (filter (\<lambda>agent.
                     list_ex (\<lambda>f. getIdentifier agent = f \<or>
                                   includesStr (toLowerCase (getName agent)) f) filters)
                     allAgents))
      else if present (defaultAgents config) \<noteq> [] then
        (let defaults = map toLowerCase (present (defaultAgents config));
             validAgentIdentifiers = newSet (map getIdentifier allAgents);
             validAgentNames = newSet (map (\<lambda>agent. toLowerCase (getName agent)) allAgents);
             invalidAgents =
               filter (\<lambda>f. \<not> has validAgentIdentifiers f \<and>
                            \<not> list_ex (\<lambda>name. includesStr name f) validAgentNames) defaults
         in if length invalidAgents > 0 then
              Inl (createRulerError
                     (''Invalid agent specified in default_agents: '' @ join '', '' invalidAgents)
                     (Some (''Valid agents are: '' @ join '', '' validAgentIdentifiers)))
            else
              Inr (filter (\<lambda>agent.
                     (let identifier = getIdentifier agent;
                          override = enabledOf config identifier
                      in case override of
                           Some b \<Rightarrow> b
                         | None \<Rightarrow>
                             list_ex (\<lambda>d. identifier = d \<or>
                                           includesStr (toLowerCase (getName agent)) d) defaults))
                     allAgents))
      else
        Inr (filter (\<lambda>agent. enabledOf config (getIdentifier agent) \<noteq> Some False) allAgents))"

section \<open>Mapping raw configuration keys (mapRawAgentConfigs)\<close>

text \<open>
  The raw record is the list of its entries in the order \<open>Object.entries\<close> yields
  them. The outer loop runs over the entries, the inner one over the agents, and
  each match stores the entry's settings under the agent's identifier.
\<close>

definition mapAgent :: "string \<Rightarrow> IAgentConfig \<Rightarrow> IAgent \<Rightarrow> (string \<rightharpoonup> IAgentConfig) \<Rightarrow> (string \<rightharpoonup> IAgentConfig)" where
  "mapAgent lowerKey cfg agent mappedConfigs =
     (let identifier = getIdentifier agent
      in if identifier = lowerKey \<or> includesStr (toLowerCase (getName agent)) lowerKey
         then mappedConfigs(identifier \<mapsto> cfg)
         else mappedConfigs)"

definition mapEntry :: "IAgent list \<Rightarrow> string \<times> IAgentConfig \<Rightarrow> (string \<rightharpoonup> IAgentConfig) \<Rightarrow> (string \<rightharpoonup> IAgentConfig)" where
  "mapEntry agents entry mappedConfigs =
     (let lowerKey = toLowerCase (fst entry)
      in fold (mapAgent lowerKey (snd entry)) agents mappedConfigs)"

definition mapRawAgentConfigs :: "(string \<times> IAgentConfig) list \<Rightarrow> IAgent list \<Rightarrow> (string \<rightharpoonup> IAgentConfig)" where
  "mapRawAgentConfigs raw agents = fold (mapEntry agents) raw Map.empty"

section \<open>Apply and revert on the file system\<close>

text \<open>
  The file system is a partial map from paths to file contents. The functions of
  this section work on the resolved output path of one agent.
\<close>

type_synonym fileSystem = "string \<rightharpoonup> string"

definition DEFAULT_BACKUP_SUFFIX :: string where
  "DEFAULT_BACKUP_SUFFIX = ''.bak''"

text \<open>
  Modelled from the spec: the apply engine's backup step (\<open>backupFile\<close>), whose
  source is not among the files at hand. If a file exists at the path, it is copied
  to the path plus the fixed backup suffix, overwriting any backup there.
\<close>

definition backupFile :: "fileSystem \<Rightarrow> string \<Rightarrow> fileSystem" where
  "backupFile fs p =
     (case fs p of None \<Rightarrow> fs | Some c \<Rightarrow> fs(p @ DEFAULT_BACKUP_SUFFIX \<mapsto> c))"

text \<open>
  Modelled from the spec: the apply engine's write step (\<open>writeGeneratedFile\<close>),
  whose source is not among the files at hand. The rules text is written to the
  path, overwriting any content there.
\<close>

definition writeGeneratedFile :: "fileSystem \<Rightarrow> string \<Rightarrow> string \<Rightarrow> fileSystem" where
  "writeGeneratedFile fs p rules = fs(p \<mapsto> rules)"

text \<open>
  Modelled from the spec: the apply of one agent (\<open>applyRulerConfig\<close> under the
  apply engine), whose source is not among the files at hand: the backup step, then
  the write step.
\<close>

definition applyAgent :: "fileSystem \<Rightarrow> string \<Rightarrow> string \<Rightarrow> fileSystem" where
  "applyAgent fs p rules = writeGeneratedFile (backupFile fs p) p rules"

text \<open>
  Modelled from the spec: the revert of one agent (the per-agent body of
  \<open>revertAllAgentConfigs\<close>), whose source is not among the files at hand. If a backup
  exists at the path plus the suffix, its content is copied back to the path and
  the backup is deleted unless backups are kept; if no backup exists and the
  generated file does, the generated file is deleted; otherwise nothing changes.
\<close>

definition revertAgent :: "fileSystem \<Rightarrow> string \<Rightarrow> string option \<Rightarrow> bool \<Rightarrow> fileSystem" where
  "revertAgent fs p backupSuffixOverride keepBackups =
     (let suffix = (case backupSuffixOverride of None \<Rightarrow> DEFAULT_BACKUP_SUFFIX | Some s \<Rightarrow> s);
          backupPath = p @ suffix
      in case fs backupPath of
           Some b \<Rightarrow>
             (let restored = fs(p \<mapsto> b)
              in if keepBackups then restored else restored(backupPath := None))
         | None \<Rightarrow>
             (case fs p of
                Some g \<Rightarrow> fs(p := None)
              | None \<Rightarrow> fs))"

section \<open>Notions of the specification\<close>

text \<open>
  A filter, already lower-cased, matches an agent when it equals the agent's
  identifier or occurs in the agent's lower-cased display name.
\<close>

definition matchesAgent :: "IAgent \<Rightarrow> string \<Rightarrow> bool" where
  "matchesAgent a f = (getIdentifier a = f \<or> includesStr (toLowerCase (getName a)) f)"

section \<open>Example data\<close>

text \<open>
  A small registry and some configurations, file systems and rule files on which
  the theorems below are instantiated. The agent \<open>amp\<close> with display name \<open>Amp\<close> is
  the one of the repository's tests.
\<close>

definition ampAgent :: IAgent where
  "ampAgent = \<lparr>getIdentifier = ''amp'', getName = ''Amp''\<rparr>"

definition copilotAgent :: IAgent where
  "copilotAgent = \<lparr>getIdentifier = ''copilot'', getName = ''GitHub Copilot''\<rparr>"

definition claudeAgent :: IAgent where
  "claudeAgent = \<lparr>getIdentifier = ''claude'', getName = ''Claude Code''\<rparr>"

definition cursorAgent :: IAgent where
  "cursorAgent = \<lparr>getIdentifier = ''cursor'', getName = ''Cursor''\<rparr>"

definition registryEx :: "IAgent list" where
  "registryEx = [ampAgent, copilotAgent, claudeAgent, cursorAgent]"

definition disabledCfg :: IAgentConfig where
  "disabledCfg = \<lparr>enabled = Some False, outputPath = None\<rparr>"

definition enabledCfg :: IAgentConfig where
  "enabledCfg = \<lparr>enabled = Some True, outputPath = None\<rparr>"

definition cfgCliEx :: LoadedConfig where
  "cfgCliEx = \<lparr>cliAgents = Some [''AMP'', ''co''], defaultAgents = Some [''bogus''],
               agentConfigs = [''amp'' \<mapsto> disabledCfg]\<rparr>"

definition cfgNope :: LoadedConfig where
  "cfgNope = \<lparr>cliAgents = Some [''Nope''], defaultAgents = None, agentConfigs = Map.empty\<rparr>"

definition cfgBad :: LoadedConfig where
  "cfgBad = \<lparr>cliAgents = Some [''Nope'', ''amp'', ''XYZ''], defaultAgents = None,
             agentConfigs = Map.empty\<rparr>"

definition cfgDefaultsEx :: LoadedConfig where
  "cfgDefaultsEx = \<lparr>cliAgents = None, defaultAgents = Some [''AMP'', ''copilot''],
               agentConfigs = [''amp'' \<mapsto> disabledCfg, ''cursor'' \<mapsto> enabledCfg]\<rparr>"

definition cfgFallbackEx :: LoadedConfig where
  "cfgFallbackEx = \<lparr>cliAgents = Some [], defaultAgents = None,
               agentConfigs = [''amp'' \<mapsto> disabledCfg, ''cursor'' \<mapsto> enabledCfg]\<rparr>"

definition cfgA :: IAgentConfig where
  "cfgA = \<lparr>enabled = Some True, outputPath = Some ''A.md''\<rparr>"

definition cfgB :: IAgentConfig where
  "cfgB = \<lparr>enabled = Some False, outputPath = Some ''B.md''\<rparr>"

definition fsStale :: fileSystem where
  "fsStale = [''AGENT.md.bak'' \<mapsto> ''old'']"

definition fsOriginal :: fileSystem where
  "fsOriginal = [''AGENT.md'' \<mapsto> ''Original Amp content'']"

definition f1 :: RuleFile where
  "f1 = \<lparr>path = ''/p/a.md'', content = '' X ''\<rparr>"

definition f2 :: RuleFile where
  "f2 = \<lparr>path = ''/p/sub/b.md'', content = ''Y''\<rparr>"

definition f3 :: RuleFile where
  "f3 = \<lparr>path = ''/q/c.md'', content = ''Z ''\<rparr>"

section \<open>Facts about the string functions\<close>

lemma join_append:
  "xs \<noteq> [] \<Longrightarrow> ys \<noteq> [] \<Longrightarrow> join sep (xs @ ys) = join sep xs @ sep @ join sep ys"
proof (induction sep xs rule: join.induct)
  case (1 sep)
  then show ?case by simp
next
  case (2 sep x)
  then show ?case by (cases ys) simp_all
next
  case (3 sep x y ys')
  then show ?case by simp
qed

lemma set_newSet_aux: "set (fold setAdd xs acc) = set xs \<union> set acc"
  by (induction xs arbitrary: acc) (auto simp: setAdd_def)

lemma set_newSet: "set (newSet xs) = set xs"
  by (simp add: newSet_def set_newSet_aux)

lemma startsWith_prefix: "startsWith s f \<longleftrightarrow> prefix f s"
  by (induction s f rule: startsWith.induct) auto

lemma includesStr_sublist: "includesStr s f \<longleftrightarrow> sublist f s"
  by (induction s) (auto simp: startsWith_prefix sublist_Cons_right)

lemma sublist_mid: "sublist x y \<Longrightarrow> sublist x (p @ y @ s)"
  using sublist_appendI [of y p s] sublist_order.order_trans by blast

lemma sublist_join: "x \<in> set xs \<Longrightarrow> sublist x (join sep xs)"
proof (induction sep xs rule: join.induct)
  case (1 sep)
  then show ?case by simp
next
  case (2 sep y)
  then show ?case by simp
next
  case (3 sep y z zs)
  show ?case
  proof (cases "x = y")
    case True
    then show ?thesis by simp
  next
    case False
    with 3 have "sublist x (join sep (z # zs))" by simp
    then have "sublist x ((y @ sep) @ join sep (z # zs) @ [])"
      by (rule sublist_mid)
    then show ?thesis by simp
  qed
qed

lemma find_app:
  "find P (xs @ ys) = (case find P xs of None \<Rightarrow> find P ys | Some x \<Rightarrow> Some x)"
  by (induction xs) auto

section \<open>The three tiers of the selector\<close>

lemma invalid_filter_iff:
  "(\<not> has (newSet (map getIdentifier allAgents)) f \<and>
    \<not> list_ex (\<lambda>name. includesStr name f) (newSet (map (\<lambda>agent. toLowerCase (getName agent)) allAgents)))
   \<longleftrightarrow> (\<forall>a\<in>set allAgents. \<not> matchesAgent a f)"
  by (auto simp: has_def set_newSet list_ex_iff matchesAgent_def)

lemma select_iff:
  "list_ex (\<lambda>f. getIdentifier a = f \<or> includesStr (toLowerCase (getName a)) f) fs
   \<longleftrightarrow> (\<exists>f\<in>set fs. matchesAgent a f)"
  by (simp add: list_ex_iff matchesAgent_def)

lemma resolve_cli:
  assumes "present (cliAgents config) \<noteq> []"
  shows "resolveSelectedAgents config allAgents =
     (let filters = map toLowerCase (present (cliAgents config));
          invalid = filter (\<lambda>f. \<forall>a\<in>set allAgents. \<not> matchesAgent a f) filters
      in if invalid \<noteq> [] then
           Inl (createRulerError (''Invalid agent specified: '' @ join '', '' invalid)
                  (Some (''Valid agents are: '' @ join '', '' (newSet (map getIdentifier allAgents)))))
         else Inr (filter (\<lambda>a. \<exists>f\<in>set filters. matchesAgent a f) allAgents))"
  using assms
  by (simp add: resolveSelectedAgents_def Let_def invalid_filter_iff select_iff)

lemma resolve_defaults:
  assumes "present (cliAgents config) = []" "present (defaultAgents config) \<noteq> []"
  shows "resolveSelectedAgents config allAgents =
     (let defaults = map toLowerCase (present (defaultAgents config));
          invalid = filter (\<lambda>f. \<forall>a\<in>set allAgents. \<not> matchesAgent a f) defaults
      in if invalid \<noteq> [] then
           Inl (createRulerError (''Invalid agent specified in default_agents: '' @ join '', '' invalid)
                  (Some (''Valid agents are: '' @ join '', '' (newSet (map getIdentifier allAgents)))))
         else Inr (filter (\<lambda>a. case enabledOf config (getIdentifier a) of
                                  Some b \<Rightarrow> b
                                | None \<Rightarrow> \<exists>f\<in>set defaults. matchesAgent a f) allAgents))"
  using assms
  by (simp add: resolveSelectedAgents_def Let_def invalid_filter_iff select_iff
           cong: option.case_cong)

lemma resolve_fallback:
  assumes "present (cliAgents config) = []" "present (defaultAgents config) = []"
  shows "resolveSelectedAgents config allAgents =
     Inr (filter (\<lambda>a. enabledOf config (getIdentifier a) \<noteq> Some False) allAgents)"
  using assms by (simp add: resolveSelectedAgents_def)

section \<open>The mapping loop\<close>

lemma fold_mapAgent:
  "fold (mapAgent k cfg) agents m i =
     (if \<exists>a\<in>set agents. getIdentifier a = i \<and> matchesAgent a k then Some cfg else m i)"
  by (induction agents arbitrary: m) (auto simp: mapAgent_def Let_def matchesAgent_def)

lemma mapEntry_apply:
  "mapEntry agents e m i =
     (if \<exists>a\<in>set agents. getIdentifier a = i \<and> matchesAgent a (toLowerCase (fst e))
      then Some (snd e) else m i)"
  by (simp add: mapEntry_def Let_def fold_mapAgent)

lemma fold_mapEntry:
  "fold (mapEntry agents) raw m i =
     (case find (\<lambda>e. \<exists>a\<in>set agents. getIdentifier a = i \<and> matchesAgent a (toLowerCase (fst e)))
             (rev raw) of
        Some e \<Rightarrow> Some (snd e)
      | None \<Rightarrow> m i)"
proof (induction raw rule: rev_induct)
  case Nil
  then show ?case by simp
next
  case (snoc e raw)
  then show ?case by (auto simp: mapEntry_apply)
qed

section \<open>The claims\<close>


subsection \<open>Selection by command-line filters\<close>

text \<open>
  C1. Tier 1. When \<open>cliAgents\<close> is non-empty and each entry, lower-cased, equals the
  identifier of some agent or occurs in the lower-cased display name of some agent,
  \<open>resolveSelectedAgents\<close> succeeds with exactly the agents of the registry that match
  at least one lower-cased entry, in registry order; changing \<open>defaultAgents\<close> and
  \<open>agentConfigs\<close> does not change the result; and in a registry whose identifiers are
  unique (as the data model has them) no agent is selected twice.
\<close>

theorem resolveSelectedAgents_cli_valid:
  assumes ne: "present (cliAgents config) \<noteq> []"
    and valid: "\<forall>e\<in>set (present (cliAgents config)). \<exists>a\<in>set allAgents. matchesAgent a (toLowerCase e)"
  shows "resolveSelectedAgents config allAgents =
           Inr (filter (\<lambda>a. \<exists>e\<in>set (present (cliAgents config)). matchesAgent a (toLowerCase e)) allAgents)
       \<and> (\<forall>d c. resolveSelectedAgents (config\<lparr>defaultAgents := d, agentConfigs := c\<rparr>) allAgents =
                 resolveSelectedAgents config allAgents)
       \<and> (distinct (map getIdentifier allAgents) \<longrightarrow>
            distinct (map getIdentifier
              (filter (\<lambda>a. \<exists>e\<in>set (present (cliAgents config)). matchesAgent a (toLowerCase e)) allAgents)))"
proof (intro conjI allI impI)
  have "filter (\<lambda>f. \<forall>a\<in>set allAgents. \<not> matchesAgent a f) (map toLowerCase (present (cliAgents config))) = []"
    using valid by (auto simp: filter_empty_conv)
  then show "resolveSelectedAgents config allAgents =
           Inr (filter (\<lambda>a. \<exists>e\<in>set (present (cliAgents config)). matchesAgent a (toLowerCase e)) allAgents)"
    by (simp add: resolve_cli [OF ne] Let_def)
next
  fix d c
  have ne': "present (cliAgents (config\<lparr>defaultAgents := d, agentConfigs := c\<rparr>)) \<noteq> []"
    using ne by simp
  show "resolveSelectedAgents (config\<lparr>defaultAgents := d, agentConfigs := c\<rparr>) allAgents =
        resolveSelectedAgents config allAgents"
    by (simp add: resolve_cli [OF ne'] resolve_cli [OF ne])
next
  assume "distinct (map getIdentifier allAgents)"
  then show "distinct (map getIdentifier
              (filter (\<lambda>a. \<exists>e\<in>set (present (cliAgents config)). matchesAgent a (toLowerCase e)) allAgents))"
    by (rule distinct_map_filter)
qed

theorem resolveSelectedAgents_cli_valid_witness:
  "present (cliAgents cfgCliEx) = [''AMP'', ''co'']
   \<and> (\<exists>a\<in>set registryEx. matchesAgent a (toLowerCase ''AMP''))
   \<and> (\<exists>a\<in>set registryEx. matchesAgent a (toLowerCase ''co''))
   \<and> resolveSelectedAgents cfgCliEx registryEx = Inr [ampAgent, copilotAgent, claudeAgent]
   \<and> distinct (map getIdentifier registryEx)
   \<and> distinct (map getIdentifier [ampAgent, copilotAgent, claudeAgent])
   \<and> resolveSelectedAgents (cfgCliEx\<lparr>defaultAgents := None, agentConfigs := Map.empty\<rparr>) registryEx
       = Inr [ampAgent, copilotAgent, claudeAgent]"
proof -
  have h1: "present (cliAgents cfgCliEx) \<noteq> []" by code_simp
  have h2: "\<forall>e\<in>set (present (cliAgents cfgCliEx)). \<exists>a\<in>set registryEx. matchesAgent a (toLowerCase e)"
    by code_simp
  have h3: "distinct (map getIdentifier registryEx)" by code_simp
  have es: "present (cliAgents cfgCliEx) = [''AMP'', ''co'']" by code_simp
  have m1: "\<exists>a\<in>set registryEx. matchesAgent a (toLowerCase ''AMP'')" by code_simp
  have m2: "\<exists>a\<in>set registryEx. matchesAgent a (toLowerCase ''co'')" by code_simp
  have ev: "filter (\<lambda>a. \<exists>e\<in>set (present (cliAgents cfgCliEx)). matchesAgent a (toLowerCase e)) registryEx
            = [ampAgent, copilotAgent, claudeAgent]"
    by code_simp
  note t = resolveSelectedAgents_cli_valid [OF h1 h2]
  from t ev have r: "resolveSelectedAgents cfgCliEx registryEx = Inr [ampAgent, copilotAgent, claudeAgent]"
    by simp
  from t have ind: "resolveSelectedAgents (cfgCliEx\<lparr>defaultAgents := None, agentConfigs := Map.empty\<rparr>) registryEx
       = resolveSelectedAgents cfgCliEx registryEx"
    by blast
  from t h3 ev have d: "distinct (map getIdentifier [ampAgent, copilotAgent, claudeAgent])"
    by simp
  from es m1 m2 r h3 d ind show ?thesis by simp
qed


subsection \<open>Invalid names\<close>

text \<open>
  The invalid names in the message are the lower-cased filters, not the entries as
  the user wrote them: for the entry \<open>Nope\<close>, which matches no agent, the
  message names \<open>nope\<close> and does not contain \<open>Nope\<close>.
\<close>

theorem resolveSelectedAgents_invalid_counterexample:
  "\<not> matchesAgent ampAgent (toLowerCase ''Nope'')
   \<and> resolveSelectedAgents cfgNope [ampAgent] =
       Inl (Error ''[ruler] Invalid agent specified: nope (Context: Valid agents are: amp)'')
   \<and> \<not> includesStr ''[ruler] Invalid agent specified: nope (Context: Valid agents are: amp)'' ''Nope''"
  by code_simp

text \<open>
  C2 (amended). Let the entries be \<open>cliAgents\<close> when it is non-empty and
  \<open>defaultAgents\<close> otherwise. If some entry, lower-cased, matches no agent, then
  \<open>resolveSelectedAgents\<close> fails and selects nothing. The failure is an error whose
  message is the prefix \<open>[ruler]\<close>, the label of the tier, the lower-cased forms of
  exactly the unmatched entries (in order, joined by a comma and a space) and, as
  context, the identifiers of the registry, each once, in registry order. So the
  message contains the lower-cased form of every unmatched entry and the
  identifier of every agent.
\<close>

theorem resolveSelectedAgents_invalid:
  assumes entries: "entries = (if present (cliAgents config) \<noteq> [] then present (cliAgents config)
                               else present (defaultAgents config))"
    and label: "label = (if present (cliAgents config) \<noteq> [] then ''Invalid agent specified: ''
                         else ''Invalid agent specified in default_agents: '')"
    and bad: "\<exists>e\<in>set entries. \<forall>a\<in>set allAgents. \<not> matchesAgent a (toLowerCase e)"
    and msg: "msg = ''[ruler] '' @ label
                    @ join '', '' (filter (\<lambda>f. \<forall>a\<in>set allAgents. \<not> matchesAgent a f)
                                     (map toLowerCase entries))
                    @ '' (Context: Valid agents are: ''
                    @ join '', '' (newSet (map getIdentifier allAgents)) @ '')''"
  shows "resolveSelectedAgents config allAgents = Inl (Error msg)
       \<and> (\<forall>e\<in>set entries. (\<forall>a\<in>set allAgents. \<not> matchesAgent a (toLowerCase e)) \<longrightarrow>
             includesStr msg (toLowerCase e))
       \<and> (\<forall>a\<in>set allAgents. includesStr msg (getIdentifier a))"
proof (intro conjI ballI impI)
  let ?inv = "filter (\<lambda>f. \<forall>a\<in>set allAgents. \<not> matchesAgent a f) (map toLowerCase entries)"
  have inv: "?inv \<noteq> []"
    using bad by (auto simp: filter_empty_conv)
  have ne: "entries \<noteq> []" using bad by auto
  show "resolveSelectedAgents config allAgents = Inl (Error msg)"
  proof (cases "present (cliAgents config) \<noteq> []")
    case True
    then show ?thesis
      using inv entries label msg
      by (simp add: resolve_cli [OF True] Let_def createRulerError_def ERROR_PREFIX_def)
  next
    case False
    then have cli: "present (cliAgents config) = []" by simp
    have dfl: "present (defaultAgents config) \<noteq> []" using ne entries cli by simp
    show ?thesis
      using inv entries label msg cli
      by (simp add: resolve_defaults [OF cli dfl] Let_def createRulerError_def ERROR_PREFIX_def)
  qed
next
  fix e
  assume e: "e \<in> set entries" "\<forall>a\<in>set allAgents. \<not> matchesAgent a (toLowerCase e)"
  let ?inv = "filter (\<lambda>f. \<forall>a\<in>set allAgents. \<not> matchesAgent a f) (map toLowerCase entries)"
  from e have "toLowerCase e \<in> set ?inv" by auto
  then have "sublist (toLowerCase e) (join '', '' ?inv)" by (rule sublist_join)
  then have "sublist (toLowerCase e) ((''[ruler] '' @ label) @ join '', '' ?inv @
       ('' (Context: Valid agents are: '' @ join '', '' (newSet (map getIdentifier allAgents)) @ '')''))"
    by (rule sublist_mid)
  then show "includesStr msg (toLowerCase e)"
    by (simp add: msg includesStr_sublist)
next
  fix a
  assume "a \<in> set allAgents"
  then have "getIdentifier a \<in> set (newSet (map getIdentifier allAgents))"
    by (simp add: set_newSet)
  then have "sublist (getIdentifier a) (join '', '' (newSet (map getIdentifier allAgents)))"
    by (rule sublist_join)
  then have "sublist (getIdentifier a)
     ((''[ruler] '' @ label
        @ join '', '' (filter (\<lambda>f. \<forall>a\<in>set allAgents. \<not> matchesAgent a f) (map toLowerCase entries))
        @ '' (Context: Valid agents are: '')
      @ join '', '' (newSet (map getIdentifier allAgents)) @ '')'')"
    by (rule sublist_mid)
  then show "includesStr msg (getIdentifier a)"
    by (simp add: msg includesStr_sublist)
qed

theorem resolveSelectedAgents_invalid_witness:
  "(\<exists>e\<in>set (present (cliAgents cfgBad)). \<forall>a\<in>set registryEx. \<not> matchesAgent a (toLowerCase e))
   \<and> resolveSelectedAgents cfgBad registryEx =
       Inl (Error ''[ruler] Invalid agent specified: nope, xyz (Context: Valid agents are: amp, copilot, claude, cursor)'')
   \<and> includesStr ''[ruler] Invalid agent specified: nope, xyz (Context: Valid agents are: amp, copilot, claude, cursor)'' ''xyz''
   \<and> includesStr ''[ruler] Invalid agent specified: nope, xyz (Context: Valid agents are: amp, copilot, claude, cursor)'' ''cursor''"
proof -
  let ?msg = "''[ruler] Invalid agent specified: nope, xyz (Context: Valid agents are: amp, copilot, claude, cursor)''"
  have ent: "present (cliAgents cfgBad) =
      (if present (cliAgents cfgBad) \<noteq> [] then present (cliAgents cfgBad)
       else present (defaultAgents cfgBad))"
    by code_simp
  have lab: "''Invalid agent specified: '' =
      (if present (cliAgents cfgBad) \<noteq> [] then ''Invalid agent specified: ''
       else ''Invalid agent specified in default_agents: '')"
    by code_simp
  have bad: "\<exists>e\<in>set (present (cliAgents cfgBad)). \<forall>a\<in>set registryEx. \<not> matchesAgent a (toLowerCase e)"
    by code_simp
  have msg: "?msg = ''[ruler] '' @ ''Invalid agent specified: ''
                    @ join '', '' (filter (\<lambda>f. \<forall>a\<in>set registryEx. \<not> matchesAgent a f)
                                     (map toLowerCase (present (cliAgents cfgBad))))
                    @ '' (Context: Valid agents are: ''
                    @ join '', '' (newSet (map getIdentifier registryEx)) @ '')''"
    by code_simp
  have x: "''XYZ'' \<in> set (present (cliAgents cfgBad))" by code_simp
  have xb: "\<forall>a\<in>set registryEx. \<not> matchesAgent a (toLowerCase ''XYZ'')" by code_simp
  have xl: "toLowerCase ''XYZ'' = ''xyz''" by code_simp
  have c: "cursorAgent \<in> set registryEx" by code_simp
  have ci: "getIdentifier cursorAgent = ''cursor''" by code_simp
  note t = resolveSelectedAgents_invalid [OF ent lab bad msg]
  from t have r: "resolveSelectedAgents cfgBad registryEx = Inl (Error ?msg)" by blast
  from t x xb have "includesStr ?msg (toLowerCase ''XYZ'')" by blast
  then have i1: "includesStr ?msg ''xyz''" by (simp only: xl)
  from t c have "includesStr ?msg (getIdentifier cursorAgent)" by blast
  then have i2: "includesStr ?msg ''cursor''" by (simp only: ci)
  from bad r i1 i2 show ?thesis by blast
qed


subsection \<open>Selection by the default list\<close>

text \<open>
  C3. Tier 2. When \<open>cliAgents\<close> is absent or empty, \<open>defaultAgents\<close> is non-empty and
  each of its entries matches some agent, \<open>resolveSelectedAgents\<close> succeeds, and for
  every agent of the registry: if its \<open>enabled\<close> flag is explicitly false it is not
  selected; if the flag is explicitly true it is selected; and if the flag is unset
  it is selected exactly when some entry of \<open>defaultAgents\<close>, lower-cased, equals
  its identifier or occurs in its lower-cased display name.
\<close>

theorem resolveSelectedAgents_defaults_valid:
  assumes cli: "present (cliAgents config) = []"
    and ne: "present (defaultAgents config) \<noteq> []"
    and valid: "\<forall>e\<in>set (present (defaultAgents config)). \<exists>a\<in>set allAgents. matchesAgent a (toLowerCase e)"
  shows "\<exists>r. resolveSelectedAgents config allAgents = Inr r
       \<and> r = filter (\<lambda>a. case enabledOf config (getIdentifier a) of
                            Some b \<Rightarrow> b
                          | None \<Rightarrow> \<exists>d\<in>set (present (defaultAgents config)). matchesAgent a (toLowerCase d))
                  allAgents
       \<and> (\<forall>a\<in>set allAgents.
            (enabledOf config (getIdentifier a) = Some False \<longrightarrow> a \<notin> set r)
          \<and> (enabledOf config (getIdentifier a) = Some True \<longrightarrow> a \<in> set r)
          \<and> (enabledOf config (getIdentifier a) = None \<longrightarrow>
               (a \<in> set r \<longleftrightarrow>
                  (\<exists>d\<in>set (present (defaultAgents config)). matchesAgent a (toLowerCase d)))))"
proof -
  let ?P = "\<lambda>a. case enabledOf config (getIdentifier a) of
                   Some b \<Rightarrow> b
                 | None \<Rightarrow> \<exists>d\<in>set (present (defaultAgents config)). matchesAgent a (toLowerCase d)"
  have "filter (\<lambda>f. \<forall>a\<in>set allAgents. \<not> matchesAgent a f)
          (map toLowerCase (present (defaultAgents config))) = []"
    using valid by (auto simp: filter_empty_conv)
  then have res: "resolveSelectedAgents config allAgents = Inr (filter ?P allAgents)"
    by (simp add: resolve_defaults [OF cli ne] Let_def cong: option.case_cong)
  have mem: "\<forall>a\<in>set allAgents.
            (enabledOf config (getIdentifier a) = Some False \<longrightarrow> a \<notin> set (filter ?P allAgents))
          \<and> (enabledOf config (getIdentifier a) = Some True \<longrightarrow> a \<in> set (filter ?P allAgents))
          \<and> (enabledOf config (getIdentifier a) = None \<longrightarrow>
               (a \<in> set (filter ?P allAgents) \<longleftrightarrow>
                  (\<exists>d\<in>set (present (defaultAgents config)). matchesAgent a (toLowerCase d))))"
    by simp
  from res mem show ?thesis by blast
qed

theorem resolveSelectedAgents_defaults_valid_witness:
  "present (cliAgents cfgDefaultsEx) = []
   \<and> present (defaultAgents cfgDefaultsEx) \<noteq> []
   \<and> present (defaultAgents cfgDefaultsEx) = [''AMP'', ''copilot'']
   \<and> (\<exists>a\<in>set registryEx. matchesAgent a (toLowerCase ''AMP''))
   \<and> (\<exists>a\<in>set registryEx. matchesAgent a (toLowerCase ''copilot''))
   \<and> enabledOf cfgDefaultsEx (getIdentifier ampAgent) = Some False
   \<and> enabledOf cfgDefaultsEx (getIdentifier cursorAgent) = Some True
   \<and> enabledOf cfgDefaultsEx (getIdentifier copilotAgent) = None
   \<and> enabledOf cfgDefaultsEx (getIdentifier claudeAgent) = None
   \<and> resolveSelectedAgents cfgDefaultsEx registryEx = Inr [copilotAgent, cursorAgent]"
proof -
  have h1: "present (cliAgents cfgDefaultsEx) = []" by code_simp
  have h2: "present (defaultAgents cfgDefaultsEx) \<noteq> []" by code_simp
  have h3: "\<forall>e\<in>set (present (defaultAgents cfgDefaultsEx)). \<exists>a\<in>set registryEx. matchesAgent a (toLowerCase e)"
    by code_simp
  have e1: "enabledOf cfgDefaultsEx (getIdentifier ampAgent) = Some False" by code_simp
  have e2: "enabledOf cfgDefaultsEx (getIdentifier cursorAgent) = Some True" by code_simp
  have e3: "enabledOf cfgDefaultsEx (getIdentifier copilotAgent) = None" by code_simp
  have e4: "enabledOf cfgDefaultsEx (getIdentifier claudeAgent) = None" by code_simp
  have es: "present (defaultAgents cfgDefaultsEx) = [''AMP'', ''copilot'']" by code_simp
  have m1: "\<exists>a\<in>set registryEx. matchesAgent a (toLowerCase ''AMP'')" by code_simp
  have m2: "\<exists>a\<in>set registryEx. matchesAgent a (toLowerCase ''copilot'')" by code_simp
  have ev: "filter (\<lambda>a. case enabledOf cfgDefaultsEx (getIdentifier a) of
                            Some b \<Rightarrow> b
                          | None \<Rightarrow> \<exists>d\<in>set (present (defaultAgents cfgDefaultsEx)). matchesAgent a (toLowerCase d))
                  registryEx = [copilotAgent, cursorAgent]"
    by code_simp
  from resolveSelectedAgents_defaults_valid [OF h1 h2 h3] ev
  have "resolveSelectedAgents cfgDefaultsEx registryEx = Inr [copilotAgent, cursorAgent]"
    by auto
  with h1 h2 es m1 m2 e1 e2 e3 e4 show ?thesis by blast
qed


subsection \<open>Apply, then revert\<close>

text \<open>
  A state with no output file but a backup left from earlier: apply skips the
  backup step and writes the file; revert then finds the old backup and restores it,
  so the file exists afterwards with the content of the old backup.
\<close>

theorem apply_revert_counterexample:
  "fsStale ''AGENT.md'' = None
   \<and> revertAgent (applyAgent fsStale ''AGENT.md'' ''new'') ''AGENT.md'' None False ''AGENT.md'' = Some ''old''"
  by code_simp

text \<open>
  C4 (amended). With the default suffix and \<open>keepBackups = false\<close>: if the output
  file exists with content \<open>C\<close>, then after apply with content \<open>D\<close> and revert the
  output file holds exactly \<open>C\<close>, there is no backup artifact, and every other path
  is as before. If neither the output file nor a backup artifact exists, apply
  followed by revert gives back the file system unchanged.
\<close>

theorem apply_revert_round_trip:
  "(fs p = Some C \<longrightarrow>
      revertAgent (applyAgent fs p D) p None False p = Some C
    \<and> revertAgent (applyAgent fs p D) p None False (p @ DEFAULT_BACKUP_SUFFIX) = None
    \<and> (\<forall>q. q \<noteq> p \<and> q \<noteq> p @ DEFAULT_BACKUP_SUFFIX \<longrightarrow>
           revertAgent (applyAgent fs p D) p None False q = fs q))
   \<and> (fs p = None \<and> fs (p @ DEFAULT_BACKUP_SUFFIX) = None \<longrightarrow>
      revertAgent (applyAgent fs p D) p None False = fs)"
proof -
  have neq: "p @ DEFAULT_BACKUP_SUFFIX \<noteq> p"
    by (simp add: DEFAULT_BACKUP_SUFFIX_def)
  have a: "fs p = Some C \<Longrightarrow>
      revertAgent (applyAgent fs p D) p None False = (fs(p \<mapsto> C))(p @ DEFAULT_BACKUP_SUFFIX := None)"
    using neq
    by (auto simp: revertAgent_def applyAgent_def writeGeneratedFile_def backupFile_def Let_def fun_eq_iff)
  have b: "fs p = None \<Longrightarrow> fs (p @ DEFAULT_BACKUP_SUFFIX) = None \<Longrightarrow>
      revertAgent (applyAgent fs p D) p None False = fs"
    using neq
    by (auto simp: revertAgent_def applyAgent_def writeGeneratedFile_def backupFile_def Let_def fun_eq_iff)
  show ?thesis using a b neq by auto
qed

theorem apply_revert_round_trip_witness:
  "fsOriginal ''AGENT.md'' = Some ''Original Amp content''
   \<and> revertAgent (applyAgent fsOriginal ''AGENT.md'' ''New Amp rules'') ''AGENT.md'' None False ''AGENT.md''
       = Some ''Original Amp content''
   \<and> revertAgent (applyAgent fsOriginal ''AGENT.md'' ''New Amp rules'') ''AGENT.md'' None False
        (''AGENT.md'' @ DEFAULT_BACKUP_SUFFIX) = None
   \<and> Map.empty ''AGENT.md'' = (None :: string option)
   \<and> Map.empty (''AGENT.md'' @ DEFAULT_BACKUP_SUFFIX) = (None :: string option)
   \<and> revertAgent (applyAgent Map.empty ''AGENT.md'' ''New Amp rules'') ''AGENT.md'' None False = Map.empty"
proof -
  have h: "fsOriginal ''AGENT.md'' = Some ''Original Amp content''"
    by (simp add: fsOriginal_def)
  show ?thesis
    using apply_revert_round_trip [of fsOriginal "''AGENT.md''" "''Original Amp content''" "''New Amp rules''"]
          apply_revert_round_trip [of Map.empty "''AGENT.md''" _ "''New Amp rules''"] h
    by simp
qed


subsection \<open>Selection with no lists\<close>

text \<open>
  C5. Tier 3. When \<open>cliAgents\<close> and \<open>defaultAgents\<close> are both absent or empty,
  \<open>resolveSelectedAgents\<close> succeeds with the agents of the registry whose \<open>enabled\<close>
  flag is not explicitly false, in registry order: an agent of the registry is
  selected exactly when its flag is unset or true.
\<close>

theorem resolveSelectedAgents_fallback:
  assumes cli: "present (cliAgents config) = []"
    and dfl: "present (defaultAgents config) = []"
  shows "resolveSelectedAgents config allAgents =
           Inr (filter (\<lambda>a. enabledOf config (getIdentifier a) \<noteq> Some False) allAgents)
       \<and> (\<forall>a\<in>set allAgents.
            a \<in> set (filter (\<lambda>a. enabledOf config (getIdentifier a) \<noteq> Some False) allAgents)
            \<longleftrightarrow> enabledOf config (getIdentifier a) \<noteq> Some False)"
  using resolve_fallback [OF cli dfl] by simp

theorem resolveSelectedAgents_fallback_witness:
  "present (cliAgents cfgFallbackEx) = []
   \<and> present (defaultAgents cfgFallbackEx) = []
   \<and> resolveSelectedAgents cfgFallbackEx registryEx = Inr [copilotAgent, claudeAgent, cursorAgent]"
proof -
  have h1: "present (cliAgents cfgFallbackEx) = []" by code_simp
  have h2: "present (defaultAgents cfgFallbackEx) = []" by code_simp
  have ev: "filter (\<lambda>a. enabledOf cfgFallbackEx (getIdentifier a) \<noteq> Some False) registryEx
              = [copilotAgent, claudeAgent, cursorAgent]"
    by code_simp
  from resolveSelectedAgents_fallback [OF h1 h2] ev
  have "resolveSelectedAgents cfgFallbackEx registryEx = Inr [copilotAgent, claudeAgent, cursorAgent]"
    by simp
  with h1 h2 show ?thesis by blast
qed


subsection \<open>One fragment\<close>

text \<open>
  C6. For the single fragment with path \<open>/p/a.md\<close> and content \<open>X\<close> between two
  spaces, and the base directory \<open>/p\<close>, \<open>concatenateRules\<close> gives exactly the three
  dashes, the line \<open>Source: a.md\<close>, the three dashes, the line \<open>X\<close>, each ended by
  a newline: the content is trimmed and the label is the path relative to the base.
\<close>

theorem concatenateRules_single:
  "concatenateRules cwd [\<lparr>path = ''/p/a.md'', content = '' X ''\<rparr>] (Some ''/p'')
     = ''---'' @ nl @ ''Source: a.md'' @ nl @ ''---'' @ nl @ ''X'' @ nl"
  by (simp add: concatenateRules_def section_of_def relative_def resolveSegs_def trim_def
        isWhiteSpace_def nl_def)

theorem concatenateRules_single_witness:
  "concatenateRules ''/work'' [\<lparr>path = ''/p/a.md'', content = '' X ''\<rparr>] (Some ''/p'')
     = [CHR ''-'', CHR ''-'', CHR ''-'', CHR 0x0A,
        CHR ''S'', CHR ''o'', CHR ''u'', CHR ''r'', CHR ''c'', CHR ''e'', CHR '':'', CHR '' '',
        CHR ''a'', CHR ''.'', CHR ''m'', CHR ''d'', CHR 0x0A,
        CHR ''-'', CHR ''-'', CHR ''-'', CHR 0x0A, CHR ''X'', CHR 0x0A]"
  using concatenateRules_single [of "''/work''"] by (simp add: nl_def)


subsection \<open>Appending fragment lists\<close>

text \<open>
  C7. For non-empty fragment lists \<open>A\<close> and \<open>B\<close> and every base directory,
  concatenating \<open>A @ B\<close> gives the concatenation of \<open>A\<close>, a single newline, and the
  concatenation of \<open>B\<close>.
\<close>

theorem concatenateRules_append:
  assumes "A \<noteq> []" "B \<noteq> []"
  shows "concatenateRules cwd (A @ B) baseDir =
           concatenateRules cwd A baseDir @ nl @ concatenateRules cwd B baseDir"
  using assms by (simp add: concatenateRules_def Let_def join_append)

theorem concatenateRules_append_witness:
  "[f1, f2] \<noteq> [] \<and> [f3] \<noteq> []
   \<and> concatenateRules ''/work'' [f1, f2, f3] (Some ''/p'') =
       concatenateRules ''/work'' [f1, f2] (Some ''/p'') @ nl @ concatenateRules ''/work'' [f3] (Some ''/p'')"
  using concatenateRules_append [of "[f1, f2]" "[f3]" "''/work''" "Some ''/p''"] by simp


subsection \<open>Failure of the command-line tier\<close>

text \<open>
  C8. When \<open>cliAgents\<close> is non-empty, a successful \<open>resolveSelectedAgents\<close> returns a
  non-empty list, and the call fails exactly when some entry, lower-cased, matches
  no agent of the registry.
\<close>

theorem resolveSelectedAgents_cli_fails_iff:
  assumes ne: "present (cliAgents config) \<noteq> []"
  shows "(\<forall>r. resolveSelectedAgents config allAgents = Inr r \<longrightarrow> r \<noteq> [])
       \<and> ((\<exists>e. resolveSelectedAgents config allAgents = Inl e) \<longleftrightarrow>
            (\<exists>f\<in>set (present (cliAgents config)). \<forall>a\<in>set allAgents. \<not> matchesAgent a (toLowerCase f)))"
proof -
  let ?fs = "map toLowerCase (present (cliAgents config))"
  let ?inv = "filter (\<lambda>f. \<forall>a\<in>set allAgents. \<not> matchesAgent a f) ?fs"
  have inv_iff: "?inv \<noteq> [] \<longleftrightarrow>
      (\<exists>f\<in>set (present (cliAgents config)). \<forall>a\<in>set allAgents. \<not> matchesAgent a (toLowerCase f))"
    by (auto simp: filter_empty_conv)
  have fails: "(\<exists>e. resolveSelectedAgents config allAgents = Inl e) \<longleftrightarrow> ?inv \<noteq> []"
    by (simp add: resolve_cli [OF ne] Let_def)
  have nonempty: "r \<noteq> []" if r: "resolveSelectedAgents config allAgents = Inr r" for r
  proof -
    have inv: "?inv = []"
      using r by (simp add: resolve_cli [OF ne] Let_def split: if_splits)
    obtain e es where es: "present (cliAgents config) = e # es"
      using ne by (cases "present (cliAgents config)") auto
    from inv es obtain a where a: "a \<in> set allAgents" "matchesAgent a (toLowerCase e)"
      by (auto simp: filter_empty_conv split: if_splits)
    have "r = filter (\<lambda>a. \<exists>f\<in>set ?fs. matchesAgent a f) allAgents"
      using r inv by (simp add: resolve_cli [OF ne] Let_def)
    with a es have "a \<in> set r" by auto
    then show ?thesis by auto
  qed
  show ?thesis using fails inv_iff nonempty by blast
qed

theorem resolveSelectedAgents_cli_fails_iff_witness:
  "present (cliAgents cfgCliEx) \<noteq> []
   \<and> resolveSelectedAgents cfgCliEx registryEx = Inr [ampAgent, copilotAgent, claudeAgent]
   \<and> [ampAgent, copilotAgent, claudeAgent] \<noteq> []
   \<and> \<not> (\<exists>e. resolveSelectedAgents cfgCliEx registryEx = Inl e)
   \<and> present (cliAgents cfgBad) \<noteq> []
   \<and> (\<exists>e. resolveSelectedAgents cfgBad registryEx = Inl e)"
proof -
  have h1: "present (cliAgents cfgCliEx) \<noteq> []" by code_simp
  have h2: "present (cliAgents cfgBad) \<noteq> []" by code_simp
  have ok: "\<not> (\<exists>f\<in>set (present (cliAgents cfgCliEx)). \<forall>a\<in>set registryEx. \<not> matchesAgent a (toLowerCase f))"
    by code_simp
  have run: "resolveSelectedAgents cfgCliEx registryEx = Inr [ampAgent, copilotAgent, claudeAgent]"
    by code_simp
  have bad: "\<exists>f\<in>set (present (cliAgents cfgBad)). \<forall>a\<in>set registryEx. \<not> matchesAgent a (toLowerCase f)"
    by code_simp
  show ?thesis
    using resolveSelectedAgents_cli_fails_iff [OF h1, of registryEx]
          resolveSelectedAgents_cli_fails_iff [OF h2, of registryEx] h1 h2 ok bad run
    by blast
qed


subsection \<open>Keys matching several agents, agents matched by several keys\<close>

text \<open>
  C9. In \<open>mapRawAgentConfigs\<close>, once the entry \<open>(key, cfg)\<close> has been processed as the
  last one, every agent whose lower-cased display name contains the lower-cased key
  has \<open>cfg\<close> under its identifier, however many such agents there are. When an
  entry \<open>(k, c)\<close> matches an agent and no later entry matches an agent of that
  identifier, \<open>c\<close> is what the result holds under it, whatever earlier entries
  stored. In general the result under an identifier is the settings of the last
  entry, in entry order, that matches an agent of that identifier, and nothing if
  there is none.
\<close>

theorem mapRawAgentConfigs_last_wins:
  "(a \<in> set agents \<and> includesStr (toLowerCase (getName a)) (toLowerCase key) \<longrightarrow>
      mapRawAgentConfigs (pre @ [(key, cfg)]) agents (getIdentifier a) = Some cfg)
   \<and> (b \<in> set agents \<and> matchesAgent b (toLowerCase k) \<and>
       (\<forall>e\<in>set post. \<forall>b'\<in>set agents.
           getIdentifier b' = getIdentifier b \<longrightarrow> \<not> matchesAgent b' (toLowerCase (fst e))) \<longrightarrow>
      mapRawAgentConfigs (earlier @ (k, c) # post) agents (getIdentifier b) = Some c)
   \<and> mapRawAgentConfigs raw agents i =
       map_option snd
         (find (\<lambda>e. \<exists>a\<in>set agents. getIdentifier a = i \<and> matchesAgent a (toLowerCase (fst e)))
            (rev raw))"
proof (intro conjI impI)
  assume "a \<in> set agents \<and> includesStr (toLowerCase (getName a)) (toLowerCase key)"
  then have "\<exists>a'\<in>set agents. getIdentifier a' = getIdentifier a \<and> matchesAgent a' (toLowerCase key)"
    by (auto simp: matchesAgent_def)
  then show "mapRawAgentConfigs (pre @ [(key, cfg)]) agents (getIdentifier a) = Some cfg"
    by (simp add: mapRawAgentConfigs_def mapEntry_apply)
next
  assume h: "b \<in> set agents \<and> matchesAgent b (toLowerCase k) \<and>
       (\<forall>e\<in>set post. \<forall>b'\<in>set agents.
           getIdentifier b' = getIdentifier b \<longrightarrow> \<not> matchesAgent b' (toLowerCase (fst e)))"
  let ?P = "\<lambda>e. \<exists>a\<in>set agents. getIdentifier a = getIdentifier b \<and> matchesAgent a (toLowerCase (fst e))"
  have none: "find ?P (rev post) = None"
    using h by (auto simp: find_None_iff)
  have hit: "?P (k, c)" using h by auto
  have found: "find ?P (rev (earlier @ (k, c) # post)) = Some (k, c)"
    using none hit by (simp add: find_app)
  have "mapRawAgentConfigs (earlier @ (k, c) # post) agents (getIdentifier b) =
          (case find ?P (rev (earlier @ (k, c) # post)) of
             Some e \<Rightarrow> Some (snd e)
           | None \<Rightarrow> Map.empty (getIdentifier b))"
    unfolding mapRawAgentConfigs_def by (rule fold_mapEntry)
  also have "\<dots> = Some c"
    by (simp only: found option.case snd_conv)
  finally show "mapRawAgentConfigs (earlier @ (k, c) # post) agents (getIdentifier b) = Some c" .
next
  show "mapRawAgentConfigs raw agents i =
       map_option snd
         (find (\<lambda>e. \<exists>a\<in>set agents. getIdentifier a = i \<and> matchesAgent a (toLowerCase (fst e)))
            (rev raw))"
    by (simp add: mapRawAgentConfigs_def fold_mapEntry split: option.splits)
qed

theorem mapRawAgentConfigs_last_wins_witness:
  "copilotAgent \<in> set registryEx
   \<and> includesStr (toLowerCase (getName copilotAgent)) (toLowerCase ''co'')
   \<and> mapRawAgentConfigs [(''co'', cfgA)] registryEx ''copilot'' = Some cfgA
   \<and> claudeAgent \<in> set registryEx
   \<and> includesStr (toLowerCase (getName claudeAgent)) (toLowerCase ''co'')
   \<and> mapRawAgentConfigs [(''co'', cfgA)] registryEx ''claude'' = Some cfgA
   \<and> matchesAgent claudeAgent (toLowerCase ''Claude'')
   \<and> mapRawAgentConfigs [(''co'', cfgA), (''Claude'', cfgB), (''AMP'', cfgA)] registryEx ''claude'' = Some cfgB"
proof -
  have m1: "copilotAgent \<in> set registryEx" by code_simp
  have i1: "includesStr (toLowerCase (getName copilotAgent)) (toLowerCase ''co'')" by code_simp
  have m2: "claudeAgent \<in> set registryEx" by code_simp
  have i2: "includesStr (toLowerCase (getName claudeAgent)) (toLowerCase ''co'')" by code_simp
  have i3: "matchesAgent claudeAgent (toLowerCase ''Claude'')" by code_simp
  have later: "\<forall>e\<in>set [(''AMP'', cfgA)]. \<forall>b'\<in>set registryEx.
           getIdentifier b' = getIdentifier claudeAgent \<longrightarrow> \<not> matchesAgent b' (toLowerCase (fst e))"
    by code_simp
  have id1: "getIdentifier copilotAgent = ''copilot''" by code_simp
  have id2: "getIdentifier claudeAgent = ''claude''" by code_simp
  have r1: "mapRawAgentConfigs ([] @ [(''co'', cfgA)]) registryEx (getIdentifier copilotAgent) = Some cfgA"
    using mapRawAgentConfigs_last_wins [of copilotAgent registryEx "''co''" "[]" cfgA] m1 i1 by blast
  have r2: "mapRawAgentConfigs ([] @ [(''co'', cfgA)]) registryEx (getIdentifier claudeAgent) = Some cfgA"
    using mapRawAgentConfigs_last_wins [of claudeAgent registryEx "''co''" "[]" cfgA] m2 i2 by blast
  have r3: "mapRawAgentConfigs ([(''co'', cfgA)] @ (''Claude'', cfgB) # [(''AMP'', cfgA)]) registryEx
              (getIdentifier claudeAgent) = Some cfgB"
    using mapRawAgentConfigs_last_wins [of _ registryEx _ _ _ claudeAgent "''Claude''" "[(''AMP'', cfgA)]"
             "[(''co'', cfgA)]" cfgB] m2 i3 later
    by blast
  from r1 r2 r3 m1 i1 m2 i2 i3 show ?thesis by (simp add: id1 id2)
qed


subsection \<open>No fragments\<close>

text \<open>
  C10. Concatenating no fragments gives the empty string, whatever the base
  directory and the working directory: no header, no separator, no trailing
  newline.
\<close>

theorem concatenateRules_empty:
  "concatenateRules cwd [] baseDir = ''''"
  by (simp add: concatenateRules_def)

theorem concatenateRules_empty_witness:
  "concatenateRules ''/work'' [] (Some ''/p'') = ''''"
  using concatenateRules_empty [of "''/work''" "Some ''/p''"] by simp

end
